theory Spec2Isabelle
  imports Main "HOL-Library.Char_ord" "HOL-Library.List_Lexorder" "HOL-Library.AList"
    "HOL-Library.Sublist"
begin

section \<open>Strings and paths (Go: strings, fmt, path/filepath on Unix)\<close>

text \<open>
  Go strings are byte sequences; they are modelled as \<open>string\<close> (a list of 8-bit
  characters). \<open>strings.ToLower\<close> is modelled on ASCII: the bytes \<open>A\<close>..\<open>Z\<close> are
  mapped to \<open>a\<close>..\<open>z\<close>, every other byte is kept.
\<close>

definition toLowerChar :: "char \<Rightarrow> char" where
  "toLowerChar c =
     (if 65 \<le> (of_char c :: nat) \<and> (of_char c :: nat) \<le> 90
      then char_of (of_char c + 32 :: nat) else c)"

definition ToLower :: "string \<Rightarrow> string" where
  "ToLower s = map toLowerChar s"

text \<open>\<open>fmt.Sprintf("%03d", n)\<close> for a non-negative \<open>n\<close>: the decimal digits of \<open>n\<close>,
  padded with zeros on the left to a width of at least three.\<close>

fun decimal :: "nat \<Rightarrow> string" where
  "decimal n =
     (if n < 10 then [char_of (48 + n)]
      else decimal (n div 10) @ [char_of (48 + n mod 10)])"

declare decimal.simps [simp del]

definition fmt03d :: "nat \<Rightarrow> string" where
  "fmt03d n = (let digits = decimal n in replicate (3 - length digits) (CHR ''0'') @ digits)"

text \<open>The elements of a path between its separators: \<open>splitSlash ''a//b'' = [''a'', '''', ''b'']\<close>.\<close>

fun splitSlash :: "string \<Rightarrow> string list" where
  "splitSlash [] = [[]]"
| "splitSlash (c # cs) =
     (if c = CHR ''/'' then [] # splitSlash cs
      else case splitSlash cs of
             [] \<Rightarrow> [[c]]
           | x # xs \<Rightarrow> (c # x) # xs)"

fun joinSlash :: "string list \<Rightarrow> string" where
  "joinSlash [] = []"
| "joinSlash [c] = c"
| "joinSlash (c # d # cs) = c @ CHR ''/'' # joinSlash (d # cs)"

text \<open>
  One step of the lexical processing of \<open>filepath.Clean\<close>: empty elements and \<open>.\<close> are
  dropped, \<open>..\<close> removes the element before it, is dropped at the root of a rooted path,
  and is kept at the start of a relative one.
\<close>

definition cleanStep :: "bool \<Rightarrow> string list \<Rightarrow> string \<Rightarrow> string list" where
  "cleanStep rooted acc c =
     (if c = [] \<or> c = ''.'' then acc
      else if c = ''..'' then
        (if acc = [] then (if rooted then [] else [''..''])
         else if last acc = ''..'' then acc @ [''..'']
         else butlast acc)
      else acc @ [c])"

definition Clean :: "string \<Rightarrow> string" where
  "Clean path =
     (if path = [] then ''.''
      else let rooted = (hd path = CHR ''/'');
               cs = foldl (cleanStep rooted) [] (splitSlash path)
           in if rooted then CHR ''/'' # joinSlash cs
              else if cs = [] then ''.'' else joinSlash cs)"

text \<open>\<open>filepath.Join\<close> of two elements: empty elements are ignored, the result is
  cleaned, and it is empty when both elements are.\<close>

definition Join :: "string \<Rightarrow> string \<Rightarrow> string" where
  "Join a b =
     (if a \<noteq> [] then Clean (a @ CHR ''/'' # b)
      else if b \<noteq> [] then Clean b
      else [])"

definition Base :: "string \<Rightarrow> string" where
  "Base path =
     (if path = [] then ''.''
      else let p = rev (dropWhile (\<lambda>c. c = CHR ''/'') (rev path));
               e = last (splitSlash p)
           in if e = [] then ''/'' else e)"

definition Ext :: "string \<Rightarrow> string" where
  "Ext path =
     (let e = last (splitSlash path)
      in if CHR ''.'' \<in> set e
         then CHR ''.'' # rev (takeWhile (\<lambda>c. c \<noteq> CHR ''.'') (rev e))
         else [])"

section \<open>The file system (package os)\<close>

text \<open>
  A file carries its contents and its modification time; the time is held as its
  rendering under the layout \<open>20060102_150405\<close>, the only way the program reads it.
  A directory is an association list from names to nodes; a later binding of a name
  that is already bound is invisible to every operation below.
\<close>

datatype node = File string string | Dir "(string \<times> node) list"

datatype errno = ENOENT | ENOTDIR | EISDIR | ENOTEMPTY | EINVAL | EBUSY

fun isDirNode :: "node \<Rightarrow> bool" where
  "isDirNode (Dir es) = True"
| "isDirNode (File c m) = False"

fun walk :: "node \<Rightarrow> string list \<Rightarrow> errno + node" where
  "walk n [] = Inr n"
| "walk (File c m) (x # xs) = Inl ENOTDIR"
| "walk (Dir es) (x # xs) =
     (case map_of es x of None \<Rightarrow> Inl ENOENT | Some n \<Rightarrow> walk n xs)"

text \<open>\<open>modify t p f\<close> replaces the node at path \<open>p\<close> by its image under \<open>f\<close>; a tree
  without a node at \<open>p\<close> is left as it is.\<close>

fun modify :: "node \<Rightarrow> string list \<Rightarrow> (node \<Rightarrow> node) \<Rightarrow> node" where
  "modify n [] f = f n"
| "modify (File c m) (x # xs) f = File c m"
| "modify (Dir es) (x # xs) f =
     (case map_of es x of
        None \<Rightarrow> Dir es
      | Some n \<Rightarrow> Dir (AList.update x (modify n xs f) es))"

fun unlinkEntry :: "string \<Rightarrow> node \<Rightarrow> node" where
  "unlinkEntry x (Dir es) = Dir (AList.delete x es)"
| "unlinkEntry x (File c m) = File c m"

fun linkEntry :: "string \<Rightarrow> node \<Rightarrow> node \<Rightarrow> node" where
  "linkEntry x n (Dir es) = Dir (AList.update x n es)"
| "linkEntry x n (File c m) = File c m"

text \<open>The state of one invocation: the tree, the working directory, the current time
  (rendered like a modification time) and the lines printed so far.\<close>

datatype err =
    AccessFailed string errno
  | NotADirectory string
  | ReadFailed string errno
  | UnknownRule string
  | GetwdFailed errno
  | MkdirFailed string errno
  | FindSubdirsFailed string errno

datatype event =
    WouldRename string string
  | Renaming string string
  | ErrorRenaming string errno
  | WouldCopy string string
  | Copying string string
  | ErrorCopying string errno
  | Warning err
  | WarnNoSubdirs string
  | WarnReadAssets string errno
  | ErrorFileInfo string errno
  | ErrorWxExporter err
  | ErrorFoldernameUsage
  | ErrorFoldernameRename err
  | ErrorReadParent errno
  | ErrorProcessing string err
  | ErrorDirectoryRequired
  | Help
  | ErrorWithRule err
  | ErrorPatternOrRuleRequired
  | ErrorCompile string
  | ErrorProcessingDirectory err

record world =
  fs :: node
  cwd :: string
  clock :: string
  out :: "event list"

definition say :: "event \<Rightarrow> world \<Rightarrow> world" where
  "say e w = w\<lparr>out := out w @ [e]\<rparr>"

text \<open>
  The kernel's view of a path: its elements from the root of the tree. A relative
  path starts at the working directory; \<open>..\<close> is resolved lexically (the tree has no
  symbolic links).
\<close>

definition resolve :: "world \<Rightarrow> string \<Rightarrow> string list" where
  "resolve w path =
     foldl (cleanStep True)
       (if path \<noteq> [] \<and> hd path = CHR ''/'' then []
        else foldl (cleanStep True) [] (splitSlash (cwd w)))
       (splitSlash path)"

record fileInfo =
  isDir :: bool
  modTime :: string

fun infoOf :: "node \<Rightarrow> fileInfo" where
  "infoOf (File c m) = \<lparr>isDir = False, modTime = m\<rparr>"
| "infoOf (Dir es) = \<lparr>isDir = True, modTime = []\<rparr>"

definition Stat :: "world \<Rightarrow> string \<Rightarrow> errno + fileInfo" where
  "Stat w path =
     (if path = [] then Inl ENOENT
      else case walk (fs w) (resolve w path) of
             Inl e \<Rightarrow> Inl e
           | Inr n \<Rightarrow> Inr (infoOf n))"

datatype dirEntry = DirEntry (Name: string) (IsDir: bool)

definition listing :: "(string \<times> node) list \<Rightarrow> dirEntry list" where
  "listing es =
     map (\<lambda>x. DirEntry x (case map_of es x of Some n \<Rightarrow> isDirNode n | None \<Rightarrow> False))
       (sort (remdups (map fst es)))"

text \<open>\<open>os.ReadDir\<close>: the entries of a directory, sorted by file name.\<close>

definition ReadDir :: "world \<Rightarrow> string \<Rightarrow> errno + dirEntry list" where
  "ReadDir w path =
     (if path = [] then Inl ENOENT
      else case walk (fs w) (resolve w path) of
             Inl e \<Rightarrow> Inl e
           | Inr (File c m) \<Rightarrow> Inl ENOTDIR
           | Inr (Dir es) \<Rightarrow> Inr (listing es))"

text \<open>\<open>DirEntry.Info\<close> of an entry read by \<open>os.ReadDir\<close>: on Unix the entry holds no
  file information, and \<open>Info\<close> reads it (\<open>lstat\<close>) when it is called.\<close>

definition Info :: "world \<Rightarrow> string \<Rightarrow> dirEntry \<Rightarrow> errno + fileInfo" where
  "Info w dir entry = Stat w (dir @ CHR ''/'' # Name entry)"

definition Getwd :: "world \<Rightarrow> errno + string" where
  "Getwd w = Inr (cwd w)"

definition moveNode :: "node \<Rightarrow> string list \<Rightarrow> string list \<Rightarrow> node \<Rightarrow> node" where
  "moveNode t po pn src =
     modify (modify t (butlast po) (unlinkEntry (last po))) (butlast pn) (linkEntry (last pn) src)"

text \<open>
  \<open>os.Rename\<close> (rename(2)): the source must exist, the parent of the target must be a
  directory; a file does not replace a directory, a directory replaces only an empty
  directory and is not moved below itself; an existing target file is replaced.
\<close>

definition Rename :: "world \<Rightarrow> string \<Rightarrow> string \<Rightarrow> errno option \<times> world" where
  "Rename w oldpath newpath =
     (let po = resolve w oldpath; pn = resolve w newpath in
      if oldpath = [] \<or> newpath = [] then (Some ENOENT, w)
      else case walk (fs w) po of
        Inl e \<Rightarrow> (Some e, w)
      | Inr src \<Rightarrow>
          if po = [] \<or> pn = [] then (Some EBUSY, w)
          else (case walk (fs w) (butlast pn) of
            Inl e \<Rightarrow> (Some e, w)
          | Inr (File c m) \<Rightarrow> (Some ENOTDIR, w)
          | Inr (Dir pes) \<Rightarrow>
              if po = pn then (None, w)
              else if isDirNode src \<and> prefix po pn then (Some EINVAL, w)
              else (case map_of pes (last pn) of
                  None \<Rightarrow> (None, w\<lparr>fs := moveNode (fs w) po pn src\<rparr>)
                | Some tgt \<Rightarrow>
                    if isDirNode src then
                      (if \<not> isDirNode tgt then (Some ENOTDIR, w)
                       else if tgt \<noteq> Dir [] then (Some ENOTEMPTY, w)
                       else (None, w\<lparr>fs := moveNode (fs w) po pn src\<rparr>))
                    else
                      (if isDirNode tgt then (Some EISDIR, w)
                       else (None, w\<lparr>fs := moveNode (fs w) po pn src\<rparr>)))))"

text \<open>\<open>os.MkdirAll\<close>: creates the directory and every missing parent; fails on a file
  in the way, before anything is created.\<close>

fun mkdirAll :: "node \<Rightarrow> string list \<Rightarrow> errno + node" where
  "mkdirAll (File c m) xs = Inl ENOTDIR"
| "mkdirAll (Dir es) [] = Inr (Dir es)"
| "mkdirAll (Dir es) (x # xs) =
     (case mkdirAll (case map_of es x of None \<Rightarrow> Dir [] | Some n \<Rightarrow> n) xs of
        Inl e \<Rightarrow> Inl e
      | Inr n \<Rightarrow> Inr (Dir (AList.update x n es)))"

definition MkdirAll :: "world \<Rightarrow> string \<Rightarrow> errno option \<times> world" where
  "MkdirAll w path =
     (if path = [] then (Some ENOENT, w)
      else case mkdirAll (fs w) (resolve w path) of
             Inl e \<Rightarrow> (Some e, w)
           | Inr t \<Rightarrow> (None, w\<lparr>fs := t\<rparr>))"

text \<open>
  \<open>os.Open\<close> followed by \<open>os.Create\<close> and \<open>io.Copy\<close>, as \<open>copyFile\<close> calls them:
  the source is opened (a directory can be opened, reading it fails later), the target
  is created or truncated, then the bytes of the source are written to it.
\<close>

definition Create :: "world \<Rightarrow> string \<Rightarrow> errno option \<times> world" where
  "Create w path =
     (let p = resolve w path in
      if path = [] then (Some ENOENT, w)
      else if p = [] then (Some EISDIR, w)
      else case walk (fs w) (butlast p) of
        Inl e \<Rightarrow> (Some e, w)
      | Inr (File c m) \<Rightarrow> (Some ENOTDIR, w)
      | Inr (Dir pes) \<Rightarrow>
          (case map_of pes (last p) of
             Some (Dir des) \<Rightarrow> (Some EISDIR, w)
           | _ \<Rightarrow> (None, w\<lparr>fs := modify (fs w) (butlast p)
                                      (linkEntry (last p) (File [] (clock w)))\<rparr>)))"

definition copyFile :: "world \<Rightarrow> string \<Rightarrow> string \<Rightarrow> errno option \<times> world" where
  "copyFile w src dst =
     (if src = [] then (Some ENOENT, w)
      else case walk (fs w) (resolve w src) of
        Inl e \<Rightarrow> (Some e, w)
      | Inr opened \<Rightarrow>
          (case Create w dst of
             (Some e, w1) \<Rightarrow> (Some e, w1)
           | (None, w1) \<Rightarrow>
               (case walk (fs w1) (resolve w1 src) of
                  Inr (File c m) \<Rightarrow>
                    (None, w1\<lparr>fs := modify (fs w1) (resolve w1 dst) (\<lambda>n. File c (clock w1))\<rparr>)
                | Inr (Dir des) \<Rightarrow> (Some EISDIR, w1)
                | Inl e \<Rightarrow> (Some e, w1))))"

section \<open>The rename command (internal/comands/rename.go)\<close>

text \<open>The block every engine ends an entry with: print the planned action; unless
  this is a dry run, perform it and print its error, if any.\<close>

definition renameOrReport :: "bool \<Rightarrow> string \<Rightarrow> string \<Rightarrow> world \<Rightarrow> world" where
  "renameOrReport dryRun oldPath newPath w =
     (if dryRun then say (WouldRename oldPath newPath) w
      else case Rename (say (Renaming oldPath newPath) w) oldPath newPath of
             (None, w1) \<Rightarrow> w1
           | (Some e, w1) \<Rightarrow> say (ErrorRenaming oldPath e) w1)"

definition copyOrReport :: "bool \<Rightarrow> string \<Rightarrow> string \<Rightarrow> world \<Rightarrow> world" where
  "copyOrReport dryRun filePath newPath w =
     (if dryRun then say (WouldCopy filePath newPath) w
      else case copyFile (say (Copying filePath newPath) w) filePath newPath of
             (None, w1) \<Rightarrow> w1
           | (Some e, w1) \<Rightarrow> say (ErrorCopying filePath e) w1)"

subsection \<open>processFoldernameRename\<close>

fun foldernameLoop ::
  "string \<Rightarrow> string \<Rightarrow> bool \<Rightarrow> dirEntry list \<Rightarrow> nat \<Rightarrow> world \<Rightarrow> world" where
  "foldernameLoop targetDir folderName dryRun [] seq w = w"
| "foldernameLoop targetDir folderName dryRun (entry # entries) seq w =
     (if IsDir entry then foldernameLoop targetDir folderName dryRun entries seq w
      else
        let oldPath = Join targetDir (Name entry);
            ext = Ext (Name entry);
            newName = folderName @ ''_'' @ fmt03d seq @ ext;
            newPath = Join targetDir newName
        in foldernameLoop targetDir folderName dryRun entries (seq + 1)
             (renameOrReport dryRun oldPath newPath w))"

definition processFoldernameRename :: "string \<Rightarrow> bool \<Rightarrow> world \<Rightarrow> err option \<times> world" where
  "processFoldernameRename targetDir dryRun w =
     (case Stat w targetDir of
        Inl e \<Rightarrow> (Some (AccessFailed targetDir e), w)
      | Inr info \<Rightarrow>
          if \<not> isDir info then (Some (NotADirectory targetDir), w)
          else (case ReadDir w targetDir of
            Inl e \<Rightarrow> (Some (ReadFailed targetDir e), w)
          | Inr entries \<Rightarrow>
              (None, foldernameLoop targetDir (Base targetDir) dryRun entries 1 w)))"

subsection \<open>processDirectoryWithRule\<close>

text \<open>
  The function calls itself on subdirectories, on a tree that its own renames have
  changed; the calls are bounded by a fuel, and \<open>None\<close> is a run that the fuel did
  not suffice for. The three loops of the \<open>switch\<close> take the recursive call as
  \<open>self\<close>. A result \<open>Some (None, w)\<close> is a return of \<open>nil\<close>.
\<close>

type_synonym outcome = "(err option \<times> world) option"

definition descend :: "(string \<Rightarrow> world \<Rightarrow> outcome) \<Rightarrow> string \<Rightarrow> world \<Rightarrow> world option" where
  "descend self path w =
     (case self path w of
        None \<Rightarrow> None
      | Some (None, w1) \<Rightarrow> Some w1
      | Some (Some e, w1) \<Rightarrow> Some (say (Warning e) w1))"

fun timestampLoop ::
  "(string \<Rightarrow> world \<Rightarrow> outcome) \<Rightarrow> string \<Rightarrow> bool \<Rightarrow> bool \<Rightarrow> dirEntry list \<Rightarrow> world
     \<Rightarrow> world option" where
  "timestampLoop self dir recursive dryRun [] w = Some w"
| "timestampLoop self dir recursive dryRun (entry # entries) w =
     (if IsDir entry then
        (if recursive then
           (case descend self (Join dir (Name entry)) w of
              None \<Rightarrow> None
            | Some w1 \<Rightarrow> timestampLoop self dir recursive dryRun entries w1)
         else timestampLoop self dir recursive dryRun entries w)
      else
        (case Info w dir entry of
           Inl e \<Rightarrow>
             timestampLoop self dir recursive dryRun entries (say (ErrorFileInfo (Name entry) e) w)
         | Inr fileInfo \<Rightarrow>
             let timestamp = modTime fileInfo;
                 newName = timestamp @ ''_'' @ Name entry;
                 oldPath = Join dir (Name entry);
                 newPath = Join dir newName
             in timestampLoop self dir recursive dryRun entries
                  (renameOrReport dryRun oldPath newPath w)))"

fun sequenceLoop ::
  "(string \<Rightarrow> world \<Rightarrow> outcome) \<Rightarrow> string \<Rightarrow> bool \<Rightarrow> bool \<Rightarrow> dirEntry list \<Rightarrow> nat \<Rightarrow> world
     \<Rightarrow> world option" where
  "sequenceLoop self dir recursive dryRun [] i w = Some w"
| "sequenceLoop self dir recursive dryRun (entry # entries) i w =
     (if IsDir entry then
        (if recursive then
           (case descend self (Join dir (Name entry)) w of
              None \<Rightarrow> None
            | Some w1 \<Rightarrow> sequenceLoop self dir recursive dryRun entries (i + 1) w1)
         else sequenceLoop self dir recursive dryRun entries (i + 1) w)
      else
        let ext = Ext (Name entry);
            newName = ''file_'' @ fmt03d (i + 1) @ ext;
            oldPath = Join dir (Name entry);
            newPath = Join dir newName
        in sequenceLoop self dir recursive dryRun entries (i + 1)
             (renameOrReport dryRun oldPath newPath w))"

fun lowercaseLoop ::
  "(string \<Rightarrow> world \<Rightarrow> outcome) \<Rightarrow> string \<Rightarrow> bool \<Rightarrow> bool \<Rightarrow> dirEntry list \<Rightarrow> world
     \<Rightarrow> world option" where
  "lowercaseLoop self dir recursive dryRun [] w = Some w"
| "lowercaseLoop self dir recursive dryRun (entry # entries) w =
     (if IsDir entry then
        (if recursive then
           (case descend self (Join dir (Name entry)) w of
              None \<Rightarrow> None
            | Some w1 \<Rightarrow> lowercaseLoop self dir recursive dryRun entries w1)
         else lowercaseLoop self dir recursive dryRun entries w)
      else
        let newName = ToLower (Name entry) in
        if newName = Name entry then lowercaseLoop self dir recursive dryRun entries w
        else
          let oldPath = Join dir (Name entry);
              newPath = Join dir newName
          in lowercaseLoop self dir recursive dryRun entries
               (renameOrReport dryRun oldPath newPath w))"

definition returning :: "world option \<Rightarrow> outcome" where
  "returning r = map_option (Pair None) r"

fun processDirectoryWithRule ::
  "nat \<Rightarrow> string \<Rightarrow> string \<Rightarrow> bool \<Rightarrow> bool \<Rightarrow> world \<Rightarrow> outcome" where
  "processDirectoryWithRule 0 dir rule recursive dryRun w = None"
| "processDirectoryWithRule (Suc fuel) dir rule recursive dryRun w =
     (case Stat w dir of
        Inl e \<Rightarrow> Some (Some (AccessFailed dir e), w)
      | Inr info \<Rightarrow>
          if \<not> isDir info then Some (Some (NotADirectory dir), w)
          else (case ReadDir w dir of
            Inl e \<Rightarrow> Some (Some (ReadFailed dir e), w)
          | Inr entries \<Rightarrow>
              if ToLower rule = ''timestamp'' then
                returning (timestampLoop (\<lambda>d. processDirectoryWithRule fuel d rule recursive dryRun)
                  dir recursive dryRun entries w)
              else if ToLower rule = ''sequence'' then
                returning (sequenceLoop (\<lambda>d. processDirectoryWithRule fuel d rule recursive dryRun)
                  dir recursive dryRun entries 0 w)
              else if ToLower rule = ''lowercase'' then
                returning (lowercaseLoop (\<lambda>d. processDirectoryWithRule fuel d rule recursive dryRun)
                  dir recursive dryRun entries w)
              else Some (Some (UnknownRule rule), w)))"

subsection \<open>processDirectory\<close>

text \<open>A compiled regular expression (package regexp) is taken by the two methods
  the program calls.\<close>

record regexp =
  MatchString :: "string \<Rightarrow> bool"
  ReplaceAllString :: "string \<Rightarrow> string \<Rightarrow> string"

fun patternLoop ::
  "(string \<Rightarrow> world \<Rightarrow> outcome) \<Rightarrow> string \<Rightarrow> regexp \<Rightarrow> string \<Rightarrow> bool \<Rightarrow> bool
     \<Rightarrow> dirEntry list \<Rightarrow> world \<Rightarrow> world option" where
  "patternLoop self dir re repl recursive dryRun [] w = Some w"
| "patternLoop self dir re repl recursive dryRun (entry # entries) w =
     (let path = Join dir (Name entry) in
      if IsDir entry then
        (if recursive then
           (case descend self path w of
              None \<Rightarrow> None
            | Some w1 \<Rightarrow> patternLoop self dir re repl recursive dryRun entries w1)
         else patternLoop self dir re repl recursive dryRun entries w)
      else if MatchString re (Name entry) then
        let newName = ReplaceAllString re (Name entry) repl;
            newPath = Join dir newName
        in patternLoop self dir re repl recursive dryRun entries
             (renameOrReport dryRun path newPath w)
      else patternLoop self dir re repl recursive dryRun entries w)"

fun processDirectory ::
  "nat \<Rightarrow> string \<Rightarrow> regexp \<Rightarrow> string \<Rightarrow> bool \<Rightarrow> bool \<Rightarrow> world \<Rightarrow> outcome" where
  "processDirectory 0 dir re repl recursive dryRun w = None"
| "processDirectory (Suc fuel) dir re repl recursive dryRun w =
     (case Stat w dir of
        Inl e \<Rightarrow> Some (Some (AccessFailed dir e), w)
      | Inr info \<Rightarrow>
          if \<not> isDir info then Some (Some (NotADirectory dir), w)
          else (case ReadDir w dir of
            Inl e \<Rightarrow> Some (Some (ReadFailed dir e), w)
          | Inr entries \<Rightarrow>
              returning (patternLoop (\<lambda>d. processDirectory fuel d re repl recursive dryRun)
                dir re repl recursive dryRun entries w)))"

subsection \<open>processWxExporter\<close>

definition findPath2Directories :: "world \<Rightarrow> string \<Rightarrow> errno + string list" where
  "findPath2Directories w path1 =
     (case ReadDir w path1 of
        Inl e \<Rightarrow> Inl e
      | Inr entries \<Rightarrow> Inr (map (\<lambda>entry. Join path1 (Name entry)) (filter IsDir entries)))"

definition isImageExt :: "string \<Rightarrow> bool" where
  "isImageExt ext =
     (\<not> (ext \<noteq> ''.jpg'' \<and> ext \<noteq> ''.jpeg'' \<and> ext \<noteq> ''.png'' \<and> ext \<noteq> ''.gif''
         \<and> ext \<noteq> ''.webp''))"

text \<open>\<open>sequenceMap\<close> is a Go map from strings to ints: a key that is absent reads as
  zero, which is how \<open>sequenceMap[path2Name]++\<close> starts a counter.\<close>

fun wxFilesLoop ::
  "string \<Rightarrow> string \<Rightarrow> string \<Rightarrow> string \<Rightarrow> bool \<Rightarrow> dirEntry list \<Rightarrow> (string \<Rightarrow> nat) \<Rightarrow> world
     \<Rightarrow> (string \<Rightarrow> nat) \<times> world" where
  "wxFilesLoop sourceName outputDir path2Name assetsDir dryRun [] sequenceMap w = (sequenceMap, w)"
| "wxFilesLoop sourceName outputDir path2Name assetsDir dryRun (file # files) sequenceMap w =
     (if IsDir file then
        wxFilesLoop sourceName outputDir path2Name assetsDir dryRun files sequenceMap w
      else
        let filePath = Join assetsDir (Name file);
            ext = ToLower (Ext (Name file))
        in if \<not> isImageExt ext then
             wxFilesLoop sourceName outputDir path2Name assetsDir dryRun files sequenceMap w
           else
             let sequenceMap1 = sequenceMap(path2Name := sequenceMap path2Name + 1);
                 sequence = sequenceMap1 path2Name;
                 newName = sourceName @ ''_'' @ path2Name @ ''_'' @ fmt03d sequence @ ext;
                 newPath = Join outputDir newName
             in wxFilesLoop sourceName outputDir path2Name assetsDir dryRun files sequenceMap1
                  (copyOrReport dryRun filePath newPath w))"

fun wxPath2Loop ::
  "string \<Rightarrow> string \<Rightarrow> bool \<Rightarrow> string list \<Rightarrow> (string \<Rightarrow> nat) \<Rightarrow> world
     \<Rightarrow> (string \<Rightarrow> nat) \<times> world" where
  "wxPath2Loop sourceName outputDir dryRun [] sequenceMap w = (sequenceMap, w)"
| "wxPath2Loop sourceName outputDir dryRun (path2Dir # path2Dirs) sequenceMap w =
     (let path2Name = Base path2Dir;
          assetsDir = Join path2Dir ''assets''
      in case Stat w assetsDir of
           Inl e \<Rightarrow> wxPath2Loop sourceName outputDir dryRun path2Dirs sequenceMap w
         | Inr assetsInfo \<Rightarrow>
             if \<not> isDir assetsInfo then
               wxPath2Loop sourceName outputDir dryRun path2Dirs sequenceMap w
             else
               (case ReadDir w assetsDir of
                  Inl e \<Rightarrow>
                    wxPath2Loop sourceName outputDir dryRun path2Dirs sequenceMap
                      (say (WarnReadAssets assetsDir e) w)
                | Inr assetFiles \<Rightarrow>
                    (case wxFilesLoop sourceName outputDir path2Name assetsDir dryRun assetFiles
                            sequenceMap w of
                       (sequenceMap1, w1) \<Rightarrow>
                         wxPath2Loop sourceName outputDir dryRun path2Dirs sequenceMap1 w1)))"

text \<open>\<open>preName\<close> is a package variable that the function reads; it is an argument
  here.\<close>

definition processWxExporter ::
  "string \<Rightarrow> string \<Rightarrow> string \<Rightarrow> bool \<Rightarrow> world \<Rightarrow> err option \<times> world" where
  "processWxExporter preName sourcePath0 outputDir dryRun w =
     (case (if sourcePath0 = [] then Getwd w else Inr sourcePath0) of
        Inl e \<Rightarrow> (Some (GetwdFailed e), w)
      | Inr sourcePath \<Rightarrow>
          (case (if \<not> dryRun then MkdirAll w outputDir else (None, w)) of
             (Some e, w1) \<Rightarrow> (Some (MkdirFailed outputDir e), w1)
           | (None, w1) \<Rightarrow>
               (case findPath2Directories w1 sourcePath of
                  Inl e \<Rightarrow> (Some (FindSubdirsFailed sourcePath e), w1)
                | Inr path2Dirs \<Rightarrow>
                    let w2 = (if length path2Dirs = 0 then say (WarnNoSubdirs sourcePath) w1
                              else w1);
                        sourceName = (if preName \<noteq> [] then preName else Base sourcePath)
                    in (None, snd (wxPath2Loop sourceName outputDir dryRun path2Dirs
                                     (\<lambda>k. 0) w2)))))"

subsection \<open>RenameCmd.Run\<close>

record flags =
  pattern :: string
  replacement :: string
  recursive :: bool
  dryRun :: bool
  directory :: string
  ruleType :: string
  sourcePath :: string
  outputDir :: string
  preName :: string
  parentDir :: string

text \<open>The values the flags have when the command line does not set them (\<open>init\<close>).\<close>

definition defaultFlags :: flags where
  "defaultFlags =
     \<lparr>pattern = [], replacement = [], recursive = False, dryRun = False, directory = [],
      ruleType = [], sourcePath = [], outputDir = ''wx-export'', preName = [], parentDir = []\<rparr>"

fun parentDirLoop :: "string \<Rightarrow> bool \<Rightarrow> dirEntry list \<Rightarrow> world \<Rightarrow> world" where
  "parentDirLoop pdir dry [] w = w"
| "parentDirLoop pdir dry (entry # entries) w =
     (if IsDir entry then
        let dirPath = Join pdir (Name entry) in
        (case processFoldernameRename dirPath dry w of
           (None, w1) \<Rightarrow> parentDirLoop pdir dry entries w1
         | (Some e, w1) \<Rightarrow> parentDirLoop pdir dry entries (say (ErrorProcessing dirPath e) w1))
      else parentDirLoop pdir dry entries w)"

text \<open>\<open>regexp.Compile\<close> is a parameter: it gives the compiled expression or the
  message of its error. The result is the state when \<open>Run\<close> returns.\<close>

definition runGeneral :: "nat \<Rightarrow> (string \<Rightarrow> string + regexp) \<Rightarrow> flags \<Rightarrow> world \<Rightarrow> world option" where
  "runGeneral fuel Compile f w =
     (if directory f = [] then Some (say Help (say ErrorDirectoryRequired w))
      else if ruleType f \<noteq> [] then
        (case processDirectoryWithRule fuel (directory f) (ruleType f) (recursive f) (dryRun f) w of
           None \<Rightarrow> None
         | Some (None, w1) \<Rightarrow> Some w1
         | Some (Some e, w1) \<Rightarrow> Some (say (ErrorWithRule e) w1))
      else if pattern f = [] then Some (say Help (say ErrorPatternOrRuleRequired w))
      else
        (case Compile (pattern f) of
           Inl msg \<Rightarrow> Some (say (ErrorCompile msg) w)
         | Inr re \<Rightarrow>
             (case processDirectory fuel (directory f) re (replacement f) (recursive f)
                     (dryRun f) w of
                None \<Rightarrow> None
              | Some (None, w1) \<Rightarrow> Some w1
              | Some (Some e, w1) \<Rightarrow> Some (say (ErrorProcessingDirectory e) w1))))"

definition Run :: "nat \<Rightarrow> (string \<Rightarrow> string + regexp) \<Rightarrow> flags \<Rightarrow> world \<Rightarrow> world option" where
  "Run fuel Compile f w =
     (if ToLower (ruleType f) = ''wx-exporter'' then
        (case processWxExporter (preName f) (sourcePath f) (outputDir f) (dryRun f) w of
           (None, w1) \<Rightarrow> Some w1
         | (Some e, w1) \<Rightarrow> Some (say (ErrorWxExporter e) w1))
      else if ToLower (ruleType f) = ''foldername-rename'' then
        (if (directory f = [] \<and> parentDir f = []) \<or> (directory f \<noteq> [] \<and> parentDir f \<noteq> [])
         then Some (say ErrorFoldernameUsage w)
         else if directory f \<noteq> [] then
           (case processFoldernameRename (directory f) (dryRun f) w of
              (None, w1) \<Rightarrow> Some w1
            | (Some e, w1) \<Rightarrow> Some (say (ErrorFoldernameRename e) w1))
         else if parentDir f \<noteq> [] then
           (case ReadDir w (parentDir f) of
              Inl e \<Rightarrow> Some (say (ErrorReadParent e) w)
            | Inr entries \<Rightarrow> Some (parentDirLoop (parentDir f) (dryRun f) entries w))
         else runGeneral fuel Compile f w)
      else runGeneral fuel Compile f w)"

text \<open>The planned operations of a run are the (source, destination) pairs it printed,
  whether as intended (\<open>Would rename\<close>, \<open>Would copy\<close>) or as performed.\<close>

fun planned :: "event \<Rightarrow> (string \<times> string) list" where
  "planned (WouldRename a b) = [(a, b)]"
| "planned (Renaming a b) = [(a, b)]"
| "planned (WouldCopy a b) = [(a, b)]"
| "planned (Copying a b) = [(a, b)]"
| "planned e = []"

definition plan :: "event list \<Rightarrow> (string \<times> string) list" where
  "plan evs = concat (map planned evs)"

section \<open>Notions used to state the properties\<close>

text \<open>The lines that report a usage error: a missing or conflicting flag, or a
  pattern that does not compile.\<close>

fun isUsageError :: "event \<Rightarrow> bool" where
  "isUsageError ErrorFoldernameUsage = True"
| "isUsageError ErrorDirectoryRequired = True"
| "isUsageError ErrorPatternOrRuleRequired = True"
| "isUsageError (ErrorCompile msg) = True"
| "isUsageError Help = True"
| "isUsageError e = False"

text \<open>The lines of a run of the pattern engine: every planned rename takes a name
  that the expression matches to its image under \<open>ReplaceAllString\<close>, in the same
  directory; nothing reports a usage error.\<close>

definition patternEvents :: "regexp \<Rightarrow> string \<Rightarrow> event list \<Rightarrow> bool" where
  "patternEvents re repl evs =
     ((\<forall>e \<in> set evs. \<not> isUsageError e) \<and>
      (\<forall>(a, b) \<in> set (plan evs).
         \<exists>dir name. MatchString re name \<and> a = Join dir name \<and>
           b = Join dir (ReplaceAllString re name repl)))"



text \<open>A name as a directory holds it: one path element.\<close>

definition plainName :: "string \<Rightarrow> bool" where
  "plainName n = (n \<noteq> [] \<and> n \<noteq> ''.'' \<and> n \<noteq> ''..'' \<and> CHR ''/'' \<notin> set n)"




text \<open>A tree whose names are all single path elements, as a real directory tree has
  them, and the nesting depth of its directories.\<close>

fun validNode :: "node \<Rightarrow> bool" where
  "validNode (File c m) = True"
| "validNode (Dir es) = (\<forall>(x, n) \<in> set es. plainName x \<and> validNode n)"

fun depth :: "node \<Rightarrow> nat" where
  "depth (File c m) = 0"
| "depth (Dir es) = Suc (fold max (map (\<lambda>(x, n). depth n) es) 0)"

text \<open>
  The common shape of the loops of the sequence rule, of the lowercase rule and of the
  pattern engine: a directory entry is entered when recursion is on; a file entry is
  skipped or renamed, within its directory, to a name that \<open>newName\<close> gives from the
  index of the entry and its name.
\<close>

fun renameLoop ::
  "(string \<Rightarrow> world \<Rightarrow> outcome) \<Rightarrow> string \<Rightarrow> bool \<Rightarrow> bool \<Rightarrow> (nat \<Rightarrow> string \<Rightarrow> string option)
     \<Rightarrow> dirEntry list \<Rightarrow> nat \<Rightarrow> world \<Rightarrow> world option" where
  "renameLoop self dir rec dry newName [] i w = Some w"
| "renameLoop self dir rec dry newName (entry # entries) i w =
     (if IsDir entry then
        (if rec then
           (case descend self (Join dir (Name entry)) w of
              None \<Rightarrow> None
            | Some w1 \<Rightarrow> renameLoop self dir rec dry newName entries (i + 1) w1)
         else renameLoop self dir rec dry newName entries (i + 1) w)
      else
        (case newName i (Name entry) of
           None \<Rightarrow> renameLoop self dir rec dry newName entries (i + 1) w
         | Some n \<Rightarrow>
             renameLoop self dir rec dry newName entries (i + 1)
               (renameOrReport dry (Join dir (Name entry)) (Join dir n) w)))"

definition sequenceName :: "nat \<Rightarrow> string \<Rightarrow> string option" where
  "sequenceName i name = Some (''file_'' @ fmt03d (i + 1) @ Ext name)"

definition lowercaseName :: "nat \<Rightarrow> string \<Rightarrow> string option" where
  "lowercaseName i name = (if ToLower name = name then None else Some (ToLower name))"

definition patternName :: "regexp \<Rightarrow> string \<Rightarrow> nat \<Rightarrow> string \<Rightarrow> string option" where
  "patternName re repl i name =
     (if MatchString re name then Some (ReplaceAllString re name repl) else None)"

text \<open>One call of an engine of that shape, with the recursive call as \<open>self\<close>.\<close>

definition engineStep ::
  "(string \<Rightarrow> world \<Rightarrow> outcome) \<Rightarrow> bool \<Rightarrow> bool \<Rightarrow> (nat \<Rightarrow> string \<Rightarrow> string option) \<Rightarrow> string
     \<Rightarrow> world \<Rightarrow> outcome" where
  "engineStep self rec dry newName dir w =
     (case Stat w dir of
        Inl e \<Rightarrow> Some (Some (AccessFailed dir e), w)
      | Inr info \<Rightarrow>
          if \<not> isDir info then Some (Some (NotADirectory dir), w)
          else (case ReadDir w dir of
            Inl e \<Rightarrow> Some (Some (ReadFailed dir e), w)
          | Inr entries \<Rightarrow> returning (renameLoop self dir rec dry newName entries 0 w)))"

text \<open>
  Relations used in the proofs. \<open>matches p v v' re rd\<close>: an execute run from \<open>v\<close> with
  result \<open>re\<close> and a dry run from \<open>v'\<close> with result \<open>rd\<close>, both on the directory at \<open>p\<close>,
  end alike and plan the same operations; the dry run leaves the tree as it is, and the
  execute run changes it at \<open>p\<close> only, where a directory stays one.
\<close>

definition matches ::
  "string list \<Rightarrow> world \<Rightarrow> world \<Rightarrow> outcome \<Rightarrow> outcome \<Rightarrow> bool" where
  "matches p v v' re rd =
     ((re = None \<longleftrightarrow> rd = None) \<and>
      (\<forall>r v1. re = Some (r, v1) \<longrightarrow>
         (\<exists>v1'. rd = Some (r, v1') \<and> fs v1' = fs v' \<and> cwd v1' = cwd v' \<and>
            (\<exists>X. plan (out v1) = plan (out v) @ X \<and> plan (out v1') = plan (out v') @ X)) \<and>
         cwd v1 = cwd v \<and>
         (\<exists>n1. fs v1 = modify (fs v) p (\<lambda>k. n1) \<and>
            (\<forall>n. walk (fs v) p = Inr n \<longrightarrow> isDirNode n1 = isDirNode n))))"

definition execMatchesDry ::
  "(string \<Rightarrow> world \<Rightarrow> outcome) \<Rightarrow> (string \<Rightarrow> world \<Rightarrow> outcome) \<Rightarrow> bool" where
  "execMatchesDry selfE selfD =
     (\<forall>d v v'. cwd v = cwd v' \<and> walk (fs v) (resolve v d) = walk (fs v') (resolve v' d) \<and>
        (\<forall>n. walk (fs v') (resolve v' d) = Inr n \<longrightarrow> validNode n) \<longrightarrow>
        matches (resolve v d) v v' (selfE d v) (selfD d v'))"

text \<open>The lines that report a failure of an item: a rename or a copy that failed, a
  subdirectory that could not be processed, file information that could not be read.\<close>

fun isFailure :: "event \<Rightarrow> bool" where
  "isFailure (ErrorRenaming a e) = True"
| "isFailure (ErrorCopying a e) = True"
| "isFailure (Warning e) = True"
| "isFailure (ErrorFileInfo a e) = True"
| "isFailure (WarnReadAssets a e) = True"
| "isFailure e = False"

section \<open>Example inputs\<close>

text \<open>
  A stand-in for \<open>regexp.Compile\<close> on the patterns that are one literal character
  (no metacharacter), with replacement templates without \<open>$\<close>: the expression
  matches a name that contains the character, and replacing deletes every occurrence
  of it in favour of the template.
\<close>

definition literalChar :: "char \<Rightarrow> regexp" where
  "literalChar c =
     \<lparr>MatchString = (\<lambda>s. c \<in> set s),
      ReplaceAllString = (\<lambda>s repl. concat (map (\<lambda>x. if x = c then repl else [x]) s))\<rparr>"

definition compileLiteral :: "string \<Rightarrow> string + regexp" where
  "compileLiteral p = (case p of [c] \<Rightarrow> Inr (literalChar c) | _ \<Rightarrow> Inl ''unsupported'')"

definition mkWorld :: "node \<Rightarrow> world" where
  "mkWorld t = \<lparr>fs = t, cwd = ''/'', clock = ''20250101_000000'', out = []\<rparr>"


text \<open>\<open>d/\<close> with the files \<open>a.txt\<close> and \<open>z.txt\<close> and the directory \<open>m\<close> between them.\<close>

definition wInterleaved :: world where
  "wInterleaved = mkWorld (Dir [(''d'',
     Dir [(''a.txt'', File ''1'' ''20240101_120000''), (''m'', Dir []),
          (''z.txt'', File ''2'' ''20240102_120000'')])])"

text \<open>\<open>d/\<close> with the file \<open>A_B.TXT\<close>.\<close>

definition wUpper :: world where
  "wUpper = mkWorld (Dir [(''d'', Dir [(''A_B.TXT'', File ''1'' ''20240101_120000'')])])"

definition fBoth :: flags where
  "fBoth = defaultFlags\<lparr>directory := ''d'', ruleType := ''lowercase'', pattern := ''_'',
                         replacement := ''-''\<rparr>"



text \<open>\<open>path1/page1/assets/IMG.PNG\<close>.\<close>

definition wUpperExt :: world where
  "wUpperExt = mkWorld (Dir [(''path1'',
     Dir [(''page1'', Dir [(''assets'', Dir [(''IMG.PNG'', File ''1'' ''20240101_120000'')])])])])"

section \<open>Basic facts\<close>

lemma out_say [simp]: "out (say e w) = out w @ [e]" by (simp add: say_def)
lemma fs_say [simp]: "fs (say e w) = fs w" by (simp add: say_def)
lemma cwd_say [simp]: "cwd (say e w) = cwd w" by (simp add: say_def)
lemma clock_say [simp]: "clock (say e w) = clock w" by (simp add: say_def)

lemma plan_append [simp]: "plan (xs @ ys) = plan xs @ plan ys" by (simp add: plan_def)
lemma plan_Nil [simp]: "plan [] = []" by (simp add: plan_def)
lemma plan_Cons [simp]: "plan (e # es) = planned e @ plan es" by (simp add: plan_def)

lemma Rename_frame:
  "Rename w a b = (r, w1) \<Longrightarrow> out w1 = out w \<and> cwd w1 = cwd w \<and> clock w1 = clock w"
  by (auto simp: Rename_def Let_def split: if_splits sum.splits node.splits option.splits)

lemma renameOrReport_out:
  "\<exists>evs. out (renameOrReport dry a b w) = out w @ evs \<and> plan evs = [(a, b)] \<and>
         (\<forall>e \<in> set evs. \<not> isUsageError e)"
proof (cases dry)
  case True
  then show ?thesis by (simp add: renameOrReport_def)
next
  case False
  obtain r w1 where R: "Rename (say (Renaming a b) w) a b = (r, w1)"
    by (cases "Rename (say (Renaming a b) w) a b")
  from Rename_frame[OF R] have "out w1 = out w @ [Renaming a b]" by simp
  with False R show ?thesis by (cases r) (simp_all add: renameOrReport_def)
qed

lemma plan_renameOrReport [simp]:
  "plan (out (renameOrReport dry a b w)) = plan (out w) @ [(a, b)]"
  using renameOrReport_out[of dry a b w] by auto

lemma fs_renameOrReport_dry [simp]: "fs (renameOrReport True a b w) = fs w"
  by (simp add: renameOrReport_def)



section \<open>Folder-name rename\<close>




section \<open>The sequence rule and the asset export on two inputs\<close>

text \<open>
  C3. The sequence rule numbers a file by its index among all entries of the listing,
  directories included. On \<open>d/\<close> with the entries \<open>a.txt\<close>, \<open>m/\<close>, \<open>z.txt\<close> it plans
  \<open>file_001.txt\<close> for \<open>a.txt\<close> and \<open>file_003.txt\<close> for \<open>z.txt\<close>: the directory \<open>m\<close> has
  taken position 2, and the positions of the files do not increase by 1.
\<close>

theorem sequence_rule_counts_directories:
  "processDirectoryWithRule 1 ''d'' ''sequence'' False True wInterleaved =
     Some (None, wInterleaved\<lparr>out :=
       [WouldRename ''d/a.txt'' ''d/file_001.txt'',
        WouldRename ''d/z.txt'' ''d/file_003.txt'']\<rparr>)"
  by code_simp

text \<open>
  C4. The asset export names the copy with the lowercased extension, not the original
  one: \<open>path1/page1/assets/IMG.PNG\<close> with prefix \<open>site\<close> is planned as
  \<open>site_page1_001.png\<close>.
\<close>

theorem wx_exporter_lowercases_extension:
  "processWxExporter ''site'' ''path1'' ''out'' True wUpperExt =
     (None, wUpperExt\<lparr>out :=
       [WouldCopy ''path1/page1/assets/IMG.PNG'' ''out/site_page1_001.png'']\<rparr>)"
  by code_simp

section \<open>The driver\<close>

lemma ToLower_Nil [simp]: "ToLower [] = []"
  by (simp add: ToLower_def)

text \<open>
  C2, as stated, fails: with the rule \<open>lowercase\<close> and a pattern and a replacement all
  set, \<open>Run\<close> reports no usage error and renames \<open>d/A_B.TXT\<close> to \<open>d/a_b.txt\<close>.
\<close>

theorem rule_and_pattern_counterexample:
  "ruleType fBoth \<noteq> [] \<and> pattern fBoth \<noteq> [] \<and> replacement fBoth \<noteq> [] \<and>
   Run 1 compileLiteral fBoth wUpper =
     Some \<lparr>fs = Dir [(''d'', Dir [(''a_b.txt'', File ''1'' ''20240101_120000'')])],
           cwd = ''/'', clock = ''20250101_000000'',
           out = [Renaming ''d/A_B.TXT'' ''d/a_b.txt'']\<rparr>"
  by code_simp

text \<open>
  C2, amended. When a rule name is set, the rule is used and the pattern and the
  replacement are ignored: the run is the same whatever they are, and no usage error comes
  from their presence. When neither a rule name nor a pattern is set, \<open>Run\<close> prints a usage
  error and the help, and leaves the file system as it is.
\<close>

theorem rule_takes_precedence:
  "(ruleType f \<noteq> [] \<longrightarrow>
      Run fuel Compile f w = Run fuel Compile' (f\<lparr>pattern := p, replacement := r\<rparr>) w) \<and>
   (ruleType f = [] \<and> pattern f = [] \<longrightarrow>
      Run fuel Compile f w =
        Some (say Help (say (if directory f = [] then ErrorDirectoryRequired
                             else ErrorPatternOrRuleRequired) w)))"
  by (simp add: Run_def runGeneral_def split: sum.split)

theorem rule_takes_precedence_witness:
  "Run 1 compileLiteral fBoth wUpper =
     Run 1 (\<lambda>p. Inl []) (fBoth\<lparr>pattern := [], replacement := []\<rparr>) wUpper \<and>
   Run 1 compileLiteral (defaultFlags\<lparr>directory := ''d''\<rparr>) wUpper =
     Some (say Help (say ErrorPatternOrRuleRequired wUpper))"
proof -
  have a: "ruleType fBoth \<noteq> []" by (simp add: fBoth_def defaultFlags_def)
  have b: "ruleType (defaultFlags\<lparr>directory := ''d''\<rparr>) = [] \<and>
           pattern (defaultFlags\<lparr>directory := ''d''\<rparr>) = []"
    by (simp add: defaultFlags_def)
  have c: "directory (defaultFlags\<lparr>directory := ''d''\<rparr>) \<noteq> []" by simp
  show ?thesis
    using rule_takes_precedence[of fBoth 1 compileLiteral wUpper "\<lambda>p. Inl []" "[]" "[]"]
      rule_takes_precedence[of "defaultFlags\<lparr>directory := ''d''\<rparr>" 1 compileLiteral wUpper]
      a b c
    by simp
qed

section \<open>The pattern engine\<close>

lemma patternEvents_Nil [simp]: "patternEvents re repl []"
  by (simp add: patternEvents_def)

lemma patternEvents_append [simp]:
  "patternEvents re repl (xs @ ys) = (patternEvents re repl xs \<and> patternEvents re repl ys)"
  by (simp add: patternEvents_def ball_Un) blast

lemma patternEvents_Warning [simp]: "patternEvents re repl [Warning e]"
  by (simp add: patternEvents_def)





lemma patternEvents_root_error [simp]: "patternEvents re repl [ErrorProcessingDirectory e]"
  by (simp add: patternEvents_def)



section \<open>A root that is missing\<close>







section \<open>Path strings\<close>

lemma splitSlash_nonempty [simp]: "splitSlash s \<noteq> []"
  by (induction s) (auto split: list.splits)

lemma splitSlash_plain: "CHR ''/'' \<notin> set s \<Longrightarrow> splitSlash s = [s]"
  by (induction s) auto

lemma splitSlash_append: "splitSlash (a @ CHR ''/'' # b) = splitSlash a @ splitSlash b"
  by (induction a) (auto split: list.splits)

lemma splitSlash_elems: "x \<in> set (splitSlash s) \<Longrightarrow> CHR ''/'' \<notin> set x"
  by (induction s arbitrary: x) (auto split: list.splits if_splits)


lemma cleanStep_plain [simp]: "plainName n \<Longrightarrow> cleanStep r acc n = acc @ [n]"
  by (auto simp: cleanStep_def plainName_def)

lemma Clean_snoc:
  assumes "plainName n" and "a \<noteq> []"
  shows "Clean (a @ CHR ''/'' # n) =
           (if hd a = CHR ''/''
            then CHR ''/'' # joinSlash (foldl (cleanStep True) [] (splitSlash a) @ [n])
            else joinSlash (foldl (cleanStep False) [] (splitSlash a) @ [n]))"
proof -
  from assms(1) have "splitSlash n = [n]"
    by (simp add: plainName_def splitSlash_plain)
  with assms show ?thesis
    by (simp add: Clean_def splitSlash_append Let_def)
qed




section \<open>The asset export\<close>





lemma Create_frame:
  "Create w a = (r, w1) \<Longrightarrow> out w1 = out w \<and> cwd w1 = cwd w \<and> clock w1 = clock w"
  by (auto simp: Create_def Let_def split: if_splits sum.splits node.splits option.splits)

lemma copyFile_frame:
  "copyFile w a b = (r, w1) \<Longrightarrow> out w1 = out w \<and> cwd w1 = cwd w \<and> clock w1 = clock w"
  by (auto simp: copyFile_def split: if_splits sum.splits node.splits option.splits prod.splits
      dest: Create_frame)

lemma copyOrReport_out:
  "\<exists>evs. out (copyOrReport dry a b w) = out w @ evs \<and> plan evs = [(a, b)]"
proof (cases dry)
  case True
  then show ?thesis by (simp add: copyOrReport_def)
next
  case False
  obtain r w1 where R: "copyFile (say (Copying a b) w) a b = (r, w1)"
    by (cases "copyFile (say (Copying a b) w) a b")
  from copyFile_frame[OF R] have "out w1 = out w @ [Copying a b]" by simp
  with False R show ?thesis by (cases r) (simp_all add: copyOrReport_def)
qed

lemma plan_copyOrReport [simp]:
  "plan (out (copyOrReport dry a b w)) = plan (out w) @ [(a, b)]"
  using copyOrReport_out[of dry a b w] by auto

lemma copyOrReport_dry [simp]:
  "fs (copyOrReport True a b w) = fs w" "cwd (copyOrReport True a b w) = cwd w"
  by (simp_all add: copyOrReport_def)












section \<open>Resolving a joined path\<close>

lemma splitSlash_joinSlash:
  "cs \<noteq> [] \<Longrightarrow> \<forall>c \<in> set cs. CHR ''/'' \<notin> set c \<Longrightarrow> splitSlash (joinSlash cs) = cs"
proof (induction cs rule: joinSlash.induct)
  case 1
  then show ?case by simp
next
  case (2 c)
  then show ?case by (simp add: splitSlash_plain)
next
  case (3 c d cs)
  then show ?case by (simp add: splitSlash_append splitSlash_plain)
qed

lemma hd_joinSlash: "cs \<noteq> [] \<Longrightarrow> hd cs \<noteq> [] \<Longrightarrow> hd (joinSlash cs) = hd (hd cs)"
  by (induction cs rule: joinSlash.induct) auto

lemma joinSlash_nonempty: "cs \<noteq> [] \<Longrightarrow> hd cs \<noteq> [] \<Longrightarrow> joinSlash cs \<noteq> []"
  by (induction cs rule: joinSlash.induct) auto

lemma foldl_cleanStep_plain:
  "\<forall>c \<in> set cs. plainName c \<Longrightarrow> foldl (cleanStep r) acc cs = acc @ cs"
  by (induction cs arbitrary: acc) simp_all

lemma cleanStep_skip [simp]: "cleanStep r acc [] = acc" "cleanStep r acc ''.'' = acc"
  by (simp_all add: cleanStep_def)

lemma cleanStep_dotdot:
  "cleanStep r acc ''..'' =
     (if acc = [] then (if r then [] else [''..''])
      else if last acc = ''..'' then acc @ [''..''] else butlast acc)"
  by (simp add: cleanStep_def)

text \<open>The elements that cleaning keeps are single path elements, or \<open>..\<close> at the start
  of a relative path.\<close>

lemma cleanStep_kept:
  assumes acc: "\<forall>a \<in> set acc. plainName a \<or> (\<not> r \<and> a = ''..'')" and c: "CHR ''/'' \<notin> set c"
  shows "\<forall>a \<in> set (cleanStep r acc c). plainName a \<or> (\<not> r \<and> a = ''..'')"
proof (cases "c = [] \<or> c = ''.''")
  case True
  with acc show ?thesis by auto
next
  case False
  show ?thesis
  proof (cases "c = ''..''")
    case dd: True
    show ?thesis
    proof (cases "acc = []")
      case True
      with dd show ?thesis by (simp add: cleanStep_dotdot)
    next
      case ne: False
      show ?thesis
      proof (cases "last acc = ''..''")
        case True
        have "\<not> plainName ''..''" by (simp add: plainName_def)
        with True ne acc have "\<not> r" using last_in_set[OF ne] by metis
        with True ne dd acc show ?thesis by (simp add: cleanStep_dotdot)
      next
        case False
        with ne dd acc show ?thesis
          by (auto simp: cleanStep_dotdot dest: in_set_butlastD)
      qed
    qed
  next
    case False
    with \<open>\<not> (c = [] \<or> c = ''.'')\<close> c have "plainName c" by (simp add: plainName_def)
    with acc show ?thesis by simp
  qed
qed

lemma foldl_cleanStep_kept:
  assumes "\<forall>a \<in> set acc. plainName a \<or> (\<not> r \<and> a = ''..'')"
    and "\<forall>c \<in> set cs. CHR ''/'' \<notin> set c"
  shows "\<forall>a \<in> set (foldl (cleanStep r) acc cs). plainName a \<or> (\<not> r \<and> a = ''..'')"
  using assms
proof (induction cs arbitrary: acc)
  case Nil
  then show ?case by simp
next
  case (Cons c cs)
  from Cons.prems have "\<forall>a \<in> set (cleanStep r acc c). plainName a \<or> (\<not> r \<and> a = ''..'')"
    by (intro cleanStep_kept) auto
  with Cons show ?case by simp
qed

lemma resolve_plain: "\<forall>a \<in> set (resolve w path). plainName a"
proof -
  have "\<forall>a \<in> set (foldl (cleanStep True) [] (splitSlash (cwd w))). plainName a"
    using foldl_cleanStep_kept[of "[]" True "splitSlash (cwd w)"] splitSlash_elems by auto
  then have "\<forall>a \<in> set (if path \<noteq> [] \<and> hd path = CHR ''/'' then []
        else foldl (cleanStep True) [] (splitSlash (cwd w))). plainName a \<or> (\<not> True \<and> a = ''..'')"
    by simp
  from foldl_cleanStep_kept[OF this, of "splitSlash path"] splitSlash_elems
  show ?thesis by (auto simp: resolve_def)
qed

text \<open>Resolving the cleaned form of a relative path from a base of single elements is
  resolving the path itself.\<close>

lemma resolve_cleaned:
  assumes "\<forall>a \<in> set base. plainName a" and "\<forall>c \<in> set cs. CHR ''/'' \<notin> set c"
  shows "foldl (cleanStep True) base (foldl (cleanStep False) [] cs) =
         foldl (cleanStep True) base cs"
  using assms(2)
proof (induction cs rule: rev_induct)
  case Nil
  then show ?case by simp
next
  case (snoc c cs)
  let ?acc = "foldl (cleanStep False) [] cs"
  let ?res = "foldl (cleanStep True) base cs"
  from snoc have IH: "foldl (cleanStep True) base ?acc = ?res" by simp
  have kept: "\<forall>a \<in> set ?acc. plainName a \<or> a = ''..''"
    using foldl_cleanStep_kept[of "[]" False cs] snoc.prems by auto
  have res: "\<forall>a \<in> set ?res. plainName a"
    using foldl_cleanStep_kept[of base True cs] assms(1) snoc.prems by auto
  show ?case
  proof (cases "c = [] \<or> c = ''.''")
    case True
    with IH show ?thesis by auto
  next
    case False
    show ?thesis
    proof (cases "c = ''..''")
      case dd: True
      show ?thesis
      proof (cases "?acc = []")
        case True
        with IH dd show ?thesis by (simp add: cleanStep_dotdot)
      next
        case ne: False
        show ?thesis
        proof (cases "last ?acc = ''..''")
          case True
          with ne dd IH show ?thesis by (simp add: cleanStep_dotdot)
        next
          case False
          with ne kept have pl: "plainName (last ?acc)" using last_in_set by blast
          have "foldl (cleanStep True) base (butlast ?acc @ [last ?acc]) =
                  foldl (cleanStep True) base (butlast ?acc) @ [last ?acc]"
            using pl by simp
          with ne have "foldl (cleanStep True) base ?acc =
                  foldl (cleanStep True) base (butlast ?acc) @ [last ?acc]"
            by simp
          with IH have r: "?res = foldl (cleanStep True) base (butlast ?acc) @ [last ?acc]"
            by simp
          from pl have "last ?acc \<noteq> ''..''" by (simp add: plainName_def)
          with r ne False dd show ?thesis by (simp add: cleanStep_dotdot)
        qed
      qed
    next
      case nd: False
      with False snoc.prems have "plainName c" by (simp add: plainName_def)
      with IH show ?thesis by simp
    qed
  qed
qed

lemma plainName_noslash: "plainName a \<Longrightarrow> CHR ''/'' \<notin> set a"
  by (simp add: plainName_def)

lemma plainName_nonempty: "plainName a \<Longrightarrow> a \<noteq> []"
  by (simp add: plainName_def)

lemma kept_noslash: "plainName a \<or> a = ''..'' \<Longrightarrow> CHR ''/'' \<notin> set a \<and> a \<noteq> []"
  by (auto simp: plainName_def)

lemma resolve_Join:
  assumes n: "plainName n" and d: "d \<noteq> []"
  shows "resolve w (Join d n) = resolve w d @ [n]"
proof (cases "hd d = CHR ''/''")
  case True
  let ?acc = "foldl (cleanStep True) [] (splitSlash d)"
  have acc: "\<forall>a \<in> set ?acc. plainName a"
    using foldl_cleanStep_kept[of "[]" True "splitSlash d"] splitSlash_elems by auto
  have sf: "\<forall>c \<in> set (?acc @ [n]). CHR ''/'' \<notin> set c"
    using acc n plainName_noslash by auto
  have j: "Join d n = CHR ''/'' # joinSlash (?acc @ [n])"
    using True n d by (simp add: Join_def Clean_snoc)
  have "splitSlash (joinSlash (?acc @ [n])) = ?acc @ [n]"
    by (rule splitSlash_joinSlash[OF _ sf]) simp
  then have "resolve w (Join d n) = foldl (cleanStep True) [] (?acc @ [n])"
    unfolding j by (simp add: resolve_def)
  also have "\<dots> = ?acc @ [n]"
    using acc n by (subst foldl_cleanStep_plain) auto
  finally show ?thesis using True d by (simp add: resolve_def)
next
  case False
  let ?acc = "foldl (cleanStep False) [] (splitSlash d)"
  let ?base = "foldl (cleanStep True) [] (splitSlash (cwd w))"
  have base: "\<forall>a \<in> set ?base. plainName a"
    using foldl_cleanStep_kept[of "[]" True "splitSlash (cwd w)"] splitSlash_elems by auto
  have acc: "\<forall>a \<in> set ?acc. plainName a \<or> a = ''..''"
    using foldl_cleanStep_kept[of "[]" False "splitSlash d"] splitSlash_elems by auto
  have all: "\<forall>c \<in> set (?acc @ [n]). CHR ''/'' \<notin> set c \<and> c \<noteq> []"
    using acc n kept_noslash by auto
  then have sf: "\<forall>c \<in> set (?acc @ [n]). CHR ''/'' \<notin> set c" by blast
  have "hd (?acc @ [n]) \<in> set (?acc @ [n])" by (rule hd_in_set) simp
  with all have hd: "hd (?acc @ [n]) \<noteq> []" "CHR ''/'' \<notin> set (hd (?acc @ [n]))"
    by blast+
  have ne: "?acc @ [n] \<noteq> []" by simp
  from hd(2) hd(1) have "hd (hd (?acc @ [n])) \<noteq> CHR ''/''"
    using hd_in_set by metis
  with hd_joinSlash[OF ne hd(1)] joinSlash_nonempty[OF ne hd(1)]
  have h: "joinSlash (?acc @ [n]) \<noteq> []" "hd (joinSlash (?acc @ [n])) \<noteq> CHR ''/''"
    by simp_all
  have j: "Join d n = joinSlash (?acc @ [n])"
    using False n d by (simp add: Join_def Clean_snoc)
  have "splitSlash (joinSlash (?acc @ [n])) = ?acc @ [n]"
    by (rule splitSlash_joinSlash[OF _ sf]) simp
  with h have "resolve w (Join d n) = foldl (cleanStep True) ?base (?acc @ [n])"
    unfolding j by (simp add: resolve_def)
  also have "\<dots> = foldl (cleanStep True) ?base ?acc @ [n]" using n by simp
  also have "foldl (cleanStep True) ?base ?acc = foldl (cleanStep True) ?base (splitSlash d)"
    using resolve_cleaned[OF base, of "splitSlash d"] splitSlash_elems by blast
  finally show ?thesis using False d by (simp add: resolve_def)
qed

section \<open>Trees\<close>

lemma walk_append:
  "walk t (p @ q) = (case walk t p of Inl e \<Rightarrow> Inl e | Inr n \<Rightarrow> walk n q)"
proof (induction p arbitrary: t)
  case Nil
  then show ?case by simp
next
  case (Cons x p)
  then show ?case by (cases t) (auto split: option.splits)
qed

lemma walk_modify:
  "walk (modify t p f) p = (case walk t p of Inl e \<Rightarrow> Inl e | Inr n \<Rightarrow> Inr (f n))"
proof (induction p arbitrary: t)
  case Nil
  then show ?case by simp
next
  case (Cons x p)
  then show ?case by (cases t) (auto simp: update_conv' split: option.splits)
qed

lemma modify_modify: "modify (modify t p f) p g = modify t p (g \<circ> f)"
proof (induction p arbitrary: t)
  case Nil
  then show ?case by simp
next
  case (Cons x p)
  then show ?case by (cases t) (auto simp: update_conv' split: option.splits)
qed

lemma modify_append: "modify t (p @ q) f = modify t p (\<lambda>n. modify n q f)"
proof (induction p arbitrary: t)
  case Nil
  then show ?case by simp
next
  case (Cons x p)
  then show ?case by (cases t) (auto split: option.splits)
qed

lemma modify_id: "walk t p = Inr n \<Longrightarrow> modify t p (\<lambda>k. n) = t"
proof (induction p arbitrary: t)
  case Nil
  then show ?case by simp
next
  case (Cons x p)
  then show ?case by (cases t) (auto simp: update_triv split: option.splits)
qed

lemma modify_missing: "walk t p = Inl e \<Longrightarrow> modify t p f = t"
proof (induction p arbitrary: t)
  case Nil
  then show ?case by simp
next
  case (Cons x p)
  then show ?case by (cases t) (auto simp: update_triv split: option.splits)
qed

lemma modify_cong: "walk t p = Inr n \<Longrightarrow> f n = g n \<Longrightarrow> modify t p f = modify t p g"
proof (induction p arbitrary: t)
  case Nil
  then show ?case by simp
next
  case (Cons x p)
  then show ?case by (cases t) (auto split: option.splits)
qed

text \<open>Replacing the child \<open>s\<close> of the directory at \<open>p\<close>.\<close>

lemma modify_child:
  assumes "map_of es s = Some c"
  shows "modify (modify t p (\<lambda>k. Dir es)) (p @ [s]) (\<lambda>k. n) =
         modify t p (\<lambda>k. Dir (AList.update s n es))"
  using assms by (simp add: modify_append modify_modify comp_def)

lemma moveNode_same_dir:
  "moveNode t (p @ [a]) (p @ [b]) src = modify t p (linkEntry b src \<circ> unlinkEntry a)"
  by (simp add: moveNode_def modify_modify)

section \<open>Operating system calls, by the tree\<close>

lemma Stat_walk:
  "path \<noteq> [] \<Longrightarrow> Stat w path = (case walk (fs w) (resolve w path) of
                                   Inl e \<Rightarrow> Inl e | Inr n \<Rightarrow> Inr (infoOf n))"
  by (simp add: Stat_def)

lemma isDir_infoOf [simp]: "isDir (infoOf n) = isDirNode n"
  by (cases n) simp_all

lemma Clean_nonempty: "Clean path \<noteq> []"
proof (cases "path = [] \<or> hd path = CHR ''/'' \<or>
    foldl (cleanStep False) [] (splitSlash path) = []")
  case True
  then show ?thesis by (auto simp: Clean_def Let_def)
next
  case False
  let ?cs = "foldl (cleanStep False) [] (splitSlash path)"
  have "\<forall>a \<in> set ?cs. plainName a \<or> a = ''..''"
    using foldl_cleanStep_kept[of "[]" False "splitSlash path"] splitSlash_elems by auto
  moreover from False have "hd ?cs \<in> set ?cs" by simp
  ultimately have "hd ?cs \<noteq> []" using kept_noslash by blast
  with False joinSlash_nonempty[of ?cs] show ?thesis by (simp add: Clean_def Let_def)
qed

lemma Join_nonempty: "d \<noteq> [] \<Longrightarrow> Join d n \<noteq> []"
  by (simp add: Join_def Clean_nonempty)

lemma in_listing:
  "DirEntry x b \<in> set (listing es) \<longleftrightarrow> (\<exists>n. map_of es x = Some n \<and> b = isDirNode n)"
proof -
  have "x \<in> fst ` set es \<longleftrightarrow> (\<exists>n. map_of es x = Some n)"
    by (metis map_of_eq_None_iff not_None_eq)
  then show ?thesis by (auto simp: listing_def split: option.splits)
qed

section \<open>Renaming within a directory\<close>

lemma walk_child:
  "walk t p = Inr (Dir es) \<Longrightarrow>
     walk t (p @ [x]) = (case map_of es x of None \<Rightarrow> Inl ENOENT | Some n \<Rightarrow> Inr n)"
  by (simp add: walk_append split: option.splits)

lemma Rename_same_dir:
  assumes dir: "dir \<noteq> []" and a: "plainName a" and b: "plainName b"
    and p: "walk (fs w) (resolve w dir) = Inr (Dir es)"
    and nd: "\<forall>n. map_of es a = Some n \<longrightarrow> \<not> isDirNode n"
  shows "Rename w (Join dir a) (Join dir b) =
     (case map_of es a of
        None \<Rightarrow> (Some ENOENT, w)
      | Some src \<Rightarrow>
          if a = b then (None, w)
          else if (\<exists>t. map_of es b = Some t \<and> isDirNode t) then (Some EISDIR, w)
          else (None, w\<lparr>fs := modify (fs w) (resolve w dir)
                               (\<lambda>k. Dir (AList.update b src (AList.delete a es)))\<rparr>))"
proof -
  let ?p = "resolve w dir"
  have po: "resolve w (Join dir a) = ?p @ [a]" and pn: "resolve w (Join dir b) = ?p @ [b]"
    using resolve_Join dir a b by simp_all
  have ne: "Join dir a \<noteq> []" "Join dir b \<noteq> []" using Join_nonempty dir by simp_all
  show ?thesis
  proof (cases "map_of es a")
    case None
    with p ne po show ?thesis by (simp add: Rename_def Let_def walk_child)
  next
    case (Some src)
    with nd have src: "\<not> isDirNode src" by simp
    have mv: "moveNode (fs w) (?p @ [a]) (?p @ [b]) src =
              modify (fs w) ?p (\<lambda>k. Dir (AList.update b src (AList.delete a es)))"
      unfolding moveNode_same_dir by (rule modify_cong[OF p]) simp
    show ?thesis
    proof (cases "a = b")
      case True
      with Some p ne po show ?thesis by (simp add: Rename_def Let_def walk_child)
    next
      case False
      with Some p ne po pn src mv show ?thesis
        by (cases "map_of es b") (auto simp: Rename_def Let_def walk_child)
    qed
  qed
qed

text \<open>What an execute step on a file entry does to the directory it is in.\<close>

lemma renameOrReport_same_dir:
  assumes dir: "dir \<noteq> []" and a: "plainName a" and b: "plainName b"
    and p: "walk (fs w) (resolve w dir) = Inr (Dir es)"
    and nd: "\<forall>n. map_of es a = Some n \<longrightarrow> \<not> isDirNode n"
  shows "cwd (renameOrReport False (Join dir a) (Join dir b) w) = cwd w \<and>
    ((fs (renameOrReport False (Join dir a) (Join dir b) w) = fs w \<and>
      (a = b \<or> (\<exists>e. out (renameOrReport False (Join dir a) (Join dir b) w) =
                     out w @ [Renaming (Join dir a) (Join dir b), ErrorRenaming (Join dir a) e]))) \<or>
     (\<exists>src. a \<noteq> b \<and> map_of es a = Some src \<and> \<not> (\<exists>t. map_of es b = Some t \<and> isDirNode t) \<and>
        fs (renameOrReport False (Join dir a) (Join dir b) w) =
          modify (fs w) (resolve w dir) (\<lambda>k. Dir (AList.update b src (AList.delete a es)))))"
proof -
  let ?v = "say (Renaming (Join dir a) (Join dir b)) w"
  have r: "resolve ?v dir = resolve w dir" by (simp add: resolve_def)
  with p have p': "walk (fs ?v) (resolve ?v dir) = Inr (Dir es)" by simp
  show ?thesis
    unfolding renameOrReport_def Rename_same_dir[OF dir a b p' nd] r
    by (auto split: option.splits)
qed

section \<open>The loops as instances of the common shape\<close>

lemma sequenceLoop_renameLoop:
  "sequenceLoop self dir rec dry entries i w = renameLoop self dir rec dry sequenceName entries i w"
  by (induction entries arbitrary: i w) (auto simp: sequenceName_def Let_def split: option.splits)

lemma lowercaseLoop_renameLoop:
  "lowercaseLoop self dir rec dry entries w = renameLoop self dir rec dry lowercaseName entries i w"
  by (induction entries arbitrary: i w) (auto simp: lowercaseName_def Let_def split: option.splits)

lemma patternLoop_renameLoop:
  "patternLoop self dir re repl rec dry entries w =
     renameLoop self dir rec dry (patternName re repl) entries i w"
  by (induction entries arbitrary: i w) (auto simp: patternName_def Let_def split: option.splits)

lemma rule_engineStep:
  "ToLower rule = ''sequence'' \<Longrightarrow>
     processDirectoryWithRule (Suc fuel) dir rule rec dry w =
       engineStep (\<lambda>d. processDirectoryWithRule fuel d rule rec dry) rec dry sequenceName dir w"
  "ToLower rule = ''lowercase'' \<Longrightarrow>
     processDirectoryWithRule (Suc fuel) dir rule rec dry w =
       engineStep (\<lambda>d. processDirectoryWithRule fuel d rule rec dry) rec dry lowercaseName dir w"
  by (simp_all add: engineStep_def sequenceLoop_renameLoop lowercaseLoop_renameLoop[where i = 0]
      cong: sum.case_cong if_cong)

lemma pattern_engineStep:
  "processDirectory (Suc fuel) dir re repl rec dry w =
     engineStep (\<lambda>d. processDirectory fuel d re repl rec dry) rec dry (patternName re repl) dir w"
  by (simp add: engineStep_def patternLoop_renameLoop[where i = 0] cong: sum.case_cong if_cong)

section \<open>An execute run against a dry run\<close>

lemma resolve_cwd: "cwd a = cwd b \<Longrightarrow> resolve a path = resolve b path"
  by (simp add: resolve_def)

lemma validNode_child: "validNode (Dir es) \<Longrightarrow> map_of es x = Some n \<Longrightarrow> plainName x \<and> validNode n"
  by (auto dest!: map_of_SomeD)

lemma modify_at_child:
  assumes "walk t p = Inr (Dir es)" and "map_of es s = Some c"
  shows "modify t (p @ [s]) (\<lambda>k. n) = modify t p (\<lambda>k. Dir (AList.update s n es))"
  unfolding modify_append using assms by (intro modify_cong[OF assms(1)]) simp

lemma dirs_after_descend:
  assumes "map_of es s = Some n" and "isDirNode n" and "isDirNode n1"
  shows "(\<exists>m. map_of (AList.update s n1 es) x = Some m \<and> isDirNode m) =
         (\<exists>m. map_of es x = Some m \<and> isDirNode m)"
  using assms by (auto simp: update_conv')

lemma dirs_after_rename:
  assumes "map_of es a = Some src" and "\<not> isDirNode src"
    and "\<not> (\<exists>t. map_of es b = Some t \<and> isDirNode t)"
  shows "(\<exists>m. map_of (AList.update b src (AList.delete a es)) x = Some m \<and> isDirNode m) =
         (\<exists>m. map_of es x = Some m \<and> isDirNode m)"
  using assms by (auto simp: update_conv' delete_conv')

lemma dir_kept_by_rename:
  assumes "map_of es a = Some src" and "\<not> isDirNode src"
    and "\<not> (\<exists>t. map_of es b = Some t \<and> isDirNode t)"
    and "map_of es x = Some m" and "isDirNode m"
  shows "map_of (AList.update b src (AList.delete a es)) x = Some m"
  using assms by (auto simp: update_conv' delete_conv')

lemma matches_None: "matches p v v' None None"
  by (simp add: matches_def)

lemma matches_SomeD:
  assumes "matches p v v' (Some (r, v1)) rd"
  obtains v1' X n1 where "rd = Some (r, v1')" "fs v1' = fs v'" "cwd v1' = cwd v'"
    "plan (out v1) = plan (out v) @ X" "plan (out v1') = plan (out v') @ X"
    "cwd v1 = cwd v" "fs v1 = modify (fs v) p (\<lambda>k. n1)"
    "\<forall>n. walk (fs v) p = Inr n \<longrightarrow> isDirNode n1 = isDirNode n"
  using assms unfolding matches_def by blast

lemma matches_SomeI:
  assumes "rd = Some (r, v1')" "fs v1' = fs v'" "cwd v1' = cwd v'"
    "plan (out v1) = plan (out v) @ X" "plan (out v1') = plan (out v') @ X"
    "cwd v1 = cwd v" "fs v1 = modify (fs v) p (\<lambda>k. nn)"
    "\<forall>n. walk (fs v) p = Inr n \<longrightarrow> isDirNode nn = isDirNode n"
  shows "matches p v v' (Some (r, v1)) rd"
  using assms unfolding matches_def by blast

lemma matches_NoneD: "matches p v v' None rd \<Longrightarrow> rd = None"
  by (simp add: matches_def)

text \<open>A step of both runs, followed by runs that match, is a pair of runs that match.\<close>

lemma matches_after_step:
  assumes rest: "matches p v1 v1' re rd"
    and here: "walk (fs v) p = Inr n" "fs v1 = modify (fs v) p (\<lambda>k. m)" "isDirNode m = isDirNode n"
    and cw: "cwd v1 = cwd v" "cwd v1' = cwd v'" and dry: "fs v1' = fs v'"
    and plans: "plan (out v1) = plan (out v) @ X" "plan (out v1') = plan (out v') @ X"
  shows "matches p v v' re rd"
proof (cases re)
  case None
  with rest have "rd = None" by (simp add: matches_NoneD)
  with None show ?thesis by (simp add: matches_None)
next
  case (Some a)
  obtain r v2 where a: "a = (r, v2)" by (cases a)
  from rest[unfolded Some a] obtain v2' X2 n1 where
    r: "rd = Some (r, v2')" "fs v2' = fs v1'" "cwd v2' = cwd v1'"
    "plan (out v2) = plan (out v1) @ X2" "plan (out v2') = plan (out v1') @ X2"
    "cwd v2 = cwd v1" "fs v2 = modify (fs v1) p (\<lambda>k. n1)"
    "\<forall>n. walk (fs v1) p = Inr n \<longrightarrow> isDirNode n1 = isDirNode n"
    by (rule matches_SomeD)
  have w1: "walk (fs v1) p = Inr m" using here by (simp add: walk_modify)
  with r(8) have d: "isDirNode n1 = isDirNode m" by simp
  have f: "fs v2 = modify (fs v) p (\<lambda>k. n1)"
    using r(7) here(2) by (simp add: modify_modify comp_def)
  show ?thesis unfolding Some a
  proof (rule matches_SomeI[where X = "X @ X2" and nn = n1])
    show "rd = Some (r, v2')" by (rule r(1))
    show "fs v2' = fs v'" using r(2) dry by simp
    show "cwd v2' = cwd v'" using r(3) cw by simp
    show "plan (out v2) = plan (out v) @ X @ X2" using r(4) plans by simp
    show "plan (out v2') = plan (out v') @ X @ X2" using r(5) plans by simp
    show "cwd v2 = cwd v" using r(6) cw by simp
    show "fs v2 = modify (fs v) p (\<lambda>k. n1)" by (rule f)
    show "\<forall>n. walk (fs v) p = Inr n \<longrightarrow> isDirNode n1 = isDirNode n"
      using d here by simp
  qed
qed

lemma matches_returning_Some:
  assumes "walk (fs v) p = Inr n"
  shows "matches p v v' (returning (Some v)) (returning (Some v'))"
  unfolding returning_def option.map
proof (rule matches_SomeI[where X = "[]" and nn = n])
  show "fs v = modify (fs v) p (\<lambda>k. n)" using modify_id[OF assms] by simp
  show "\<forall>n'. walk (fs v) p = Inr n' \<longrightarrow> isDirNode n = isDirNode n'" using assms by simp
qed simp_all

lemma descend_matches:
  assumes m: "matches q v v' (selfE d v) (selfD d v')"
  shows "matches q v v' (returning (descend selfE d v)) (returning (descend selfD d v'))"
proof (cases "selfE d v")
  case None
  with m have "selfD d v' = None" by (simp add: matches_NoneD)
  with None show ?thesis by (simp add: matches_None descend_def returning_def)
next
  case (Some a)
  obtain r v1 where a: "a = (r, v1)" by (cases a)
  from m[unfolded Some a] obtain v1' X n1 where
    r: "selfD d v' = Some (r, v1')" "fs v1' = fs v'" "cwd v1' = cwd v'"
    "plan (out v1) = plan (out v) @ X" "plan (out v1') = plan (out v') @ X"
    "cwd v1 = cwd v" "fs v1 = modify (fs v) q (\<lambda>k. n1)"
    "\<forall>n. walk (fs v) q = Inr n \<longrightarrow> isDirNode n1 = isDirNode n"
    by (rule matches_SomeD)
  show ?thesis
  proof (cases r)
    case None
    have "matches q v v' (Some (None, v1)) (Some (None, v1'))"
      using r by (intro matches_SomeI[where X = X and nn = n1]) simp_all
    with None Some a r(1) show ?thesis by (simp add: descend_def returning_def)
  next
    case (Some e)
    have "matches q v v' (Some (None, say (Warning e) v1)) (Some (None, say (Warning e) v1'))"
    proof (rule matches_SomeI[where X = X and nn = n1])
      show "Some (None, say (Warning e) v1') = Some (None, say (Warning e) v1')" by simp
    qed (use r in simp_all)
    with Some \<open>selfE d v = Some a\<close> a r(1) show ?thesis by (simp add: descend_def returning_def)
  qed
qed

lemma renameLoop_exec_dry:
  assumes IH: "execMatchesDry selfE selfD"
    and names: "\<And>i x n. plainName x \<Longrightarrow> newName i x = Some n \<Longrightarrow> plainName n"
    and dir: "dir \<noteq> []"
    and valid: "validNode (Dir es0)"
  shows "distinct (map Name entries) \<Longrightarrow>
     \<forall>e \<in> set entries. \<exists>n. map_of es0 (Name e) = Some n \<and> IsDir e = isDirNode n \<Longrightarrow>
     cwd w' = cwd w \<Longrightarrow>
     walk (fs w') (resolve w dir) = Inr (Dir es0) \<Longrightarrow>
     walk (fs w) (resolve w dir) = Inr (Dir es) \<Longrightarrow>
     \<forall>x. (\<exists>n. map_of es x = Some n \<and> isDirNode n) = (\<exists>n. map_of es0 x = Some n \<and> isDirNode n) \<Longrightarrow>
     \<forall>e \<in> set entries. IsDir e \<longrightarrow> map_of es (Name e) = map_of es0 (Name e) \<Longrightarrow>
     matches (resolve w dir) w w'
       (returning (renameLoop selfE dir rec False newName entries i w))
       (returning (renameLoop selfD dir rec True newName entries i w'))"
proof (induction entries arbitrary: i w w' es)
  case Nil
  then show ?case by (simp add: matches_returning_Some)
next
  case (Cons e entries)
  let ?p = "resolve w dir"
  let ?a = "Name e"
  note dist = Cons.prems(1) and ents = Cons.prems(2) and cw = Cons.prems(3)
    and dry0 = Cons.prems(4) and ex = Cons.prems(5) and dirs = Cons.prems(6)
    and pend = Cons.prems(7)
  from ents obtain n0 where n0: "map_of es0 ?a = Some n0" "IsDir e = isDirNode n0" by auto
  from validNode_child[OF valid n0(1)] have pa: "plainName ?a" and vn0: "validNode n0"
    by simp_all
  have tdist: "distinct (map Name entries)" using dist by simp
  have tents: "\<forall>e \<in> set entries. \<exists>n. map_of es0 (Name e) = Some n \<and> IsDir e = isDirNode n"
    using ents by simp
  have tpend: "\<forall>e \<in> set entries. IsDir e \<longrightarrow> map_of es (Name e) = map_of es0 (Name e)"
    using pend by simp
  have other: "\<forall>e' \<in> set entries. Name e' \<noteq> ?a"
  proof (intro ballI notI)
    fix e' assume "e' \<in> set entries" "Name e' = ?a"
    then have "?a \<in> Name ` set entries" by (metis imageI)
    with dist show False by simp
  qed
  have same: "matches ?p w w'
       (returning (renameLoop selfE dir rec False newName entries j w))
       (returning (renameLoop selfD dir rec True newName entries j w'))" for j
    by (rule Cons.IH[OF tdist tents cw dry0 ex dirs tpend])
  show ?case
  proof (cases "IsDir e")
    case True
    show ?thesis
    proof (cases rec)
      case False
      with True same show ?thesis by simp
    next
      case rec: True
      let ?d = "Join dir ?a"
      have q: "resolve w ?d = ?p @ [?a]" by (simp add: resolve_Join pa dir)
      have q': "resolve w' ?d = ?p @ [?a]" using q resolve_cwd[OF cw] by simp
      from pend True n0 have ea: "map_of es ?a = Some n0" by simp
      have we: "walk (fs w) (?p @ [?a]) = Inr n0" using ex ea by (simp add: walk_child)
      have wd: "walk (fs w') (?p @ [?a]) = Inr n0" using dry0 n0 by (simp add: walk_child)
      have "matches (resolve w ?d) w w' (selfE ?d w) (selfD ?d w')"
        using IH[unfolded execMatchesDry_def, rule_format, of w w' ?d] we wd q q' cw vn0
        by simp
      then have m: "matches (?p @ [?a]) w w'
          (returning (descend selfE ?d w)) (returning (descend selfD ?d w'))"
        unfolding q by (rule descend_matches)
      show ?thesis
      proof (cases "descend selfE ?d w")
        case None
        with m have "descend selfD ?d w' = None"
          by (auto simp: returning_def dest: matches_NoneD)
        with None True rec show ?thesis by (simp add: matches_None returning_def)
      next
        case (Some v1)
        from m[unfolded Some returning_def option.map] obtain v1' X n1 where
          r: "map_option (Pair None) (descend selfD ?d w') = Some (None, v1')"
          "fs v1' = fs w'" "cwd v1' = cwd w'"
          "plan (out v1) = plan (out w) @ X" "plan (out v1') = plan (out w') @ X"
          "cwd v1 = cwd w" "fs v1 = modify (fs w) (?p @ [?a]) (\<lambda>k. n1)"
          "\<forall>n. walk (fs w) (?p @ [?a]) = Inr n \<longrightarrow> isDirNode n1 = isDirNode n"
          by (rule matches_SomeD) blast
        from r(1) have dd: "descend selfD ?d w' = Some v1'" by auto
        let ?es = "AList.update ?a n1 es"
        from r(8) we True n0 have dn1: "isDirNode n1" by simp
        have f: "fs v1 = modify (fs w) ?p (\<lambda>k. Dir ?es)"
          using r(7) modify_at_child[OF ex ea] by simp
        have rv: "resolve v1 dir = ?p" using resolve_cwd[OF r(6)] by simp
        have ex1: "walk (fs v1) (resolve v1 dir) = Inr (Dir ?es)"
          unfolding rv f using ex by (simp add: walk_modify)
        have rest: "matches (resolve v1 dir) v1 v1'
            (returning (renameLoop selfE dir rec False newName entries (i + 1) v1))
            (returning (renameLoop selfD dir rec True newName entries (i + 1) v1'))"
        proof (rule Cons.IH[OF tdist tents _ _ ex1])
          show "cwd v1' = cwd v1" using r(3) r(6) cw by simp
          show "walk (fs v1') (resolve v1 dir) = Inr (Dir es0)" using rv r(2) dry0 by simp
          show "\<forall>x. (\<exists>n. map_of ?es x = Some n \<and> isDirNode n) =
                    (\<exists>n. map_of es0 x = Some n \<and> isDirNode n)"
            using dirs dirs_after_descend[OF ea _ dn1] True n0 by simp
          show "\<forall>e \<in> set entries. IsDir e \<longrightarrow> map_of ?es (Name e) = map_of es0 (Name e)"
            using tpend other by (simp add: update_conv')
        qed
        have "matches ?p w w'
            (returning (renameLoop selfE dir rec False newName entries (i + 1) v1))
            (returning (renameLoop selfD dir rec True newName entries (i + 1) v1'))"
          by (rule matches_after_step[OF rest[unfolded rv] ex f _ r(6) r(3) r(2) r(4) r(5)]) simp
        with True rec Some dd show ?thesis by simp
      qed
    qed
  next
    case False
    show ?thesis
    proof (cases "newName i ?a")
      case None
      with False same show ?thesis by simp
    next
      case (Some b)
      with pa have pb: "plainName b" by (rule names)
      let ?x = "Join dir ?a" and ?y = "Join dir b"
      let ?v1 = "renameOrReport False ?x ?y w" and ?v1' = "renameOrReport True ?x ?y w'"
      from False n0 have "\<not> (\<exists>n. map_of es0 ?a = Some n \<and> isDirNode n)" by simp
      with dirs have nd: "\<forall>n. map_of es ?a = Some n \<longrightarrow> \<not> isDirNode n" by blast
      note step = renameOrReport_same_dir[OF dir pa pb ex nd]
      have cw1: "cwd ?v1 = cwd w" using step by simp
      have rv: "resolve ?v1 dir = ?p" using resolve_cwd[OF cw1] by simp
      have dry1: "fs ?v1' = fs w'" "cwd ?v1' = cwd w'" by (simp_all add: renameOrReport_def)
      have plans: "plan (out ?v1) = plan (out w) @ [(?x, ?y)]"
        "plan (out ?v1') = plan (out w') @ [(?x, ?y)]" by simp_all
      obtain es1 where
        f: "fs ?v1 = modify (fs w) ?p (\<lambda>k. Dir es1)"
        and d1: "\<forall>x. (\<exists>n. map_of es1 x = Some n \<and> isDirNode n) =
                    (\<exists>n. map_of es x = Some n \<and> isDirNode n)"
        and k1: "\<forall>x m. map_of es x = Some m \<and> isDirNode m \<longrightarrow> map_of es1 x = Some m"
      proof (cases "fs ?v1 = fs w")
        case True
        then have "fs ?v1 = modify (fs w) ?p (\<lambda>k. Dir es)" using modify_id[OF ex] by simp
        then show ?thesis by (rule that) simp_all
      next
        case False
        with step obtain src where
          s: "map_of es ?a = Some src" "\<not> (\<exists>t. map_of es b = Some t \<and> isDirNode t)"
          "fs ?v1 = modify (fs w) ?p (\<lambda>k. Dir (AList.update b src (AList.delete ?a es)))"
          by blast
        from s(1) nd have ns: "\<not> isDirNode src" by simp
        show ?thesis
        proof (rule that[OF s(3)])
          show "\<forall>x. (\<exists>n. map_of (AList.update b src (AList.delete ?a es)) x = Some n \<and> isDirNode n) =
                    (\<exists>n. map_of es x = Some n \<and> isDirNode n)"
            using dirs_after_rename[OF s(1) ns s(2)] by blast
          show "\<forall>x m. map_of es x = Some m \<and> isDirNode m \<longrightarrow>
                  map_of (AList.update b src (AList.delete ?a es)) x = Some m"
            using dir_kept_by_rename[OF s(1) ns s(2)] by blast
        qed
      qed
      have ex1: "walk (fs ?v1) (resolve ?v1 dir) = Inr (Dir es1)"
        unfolding rv f using ex by (simp add: walk_modify)
      have rest: "matches (resolve ?v1 dir) ?v1 ?v1'
            (returning (renameLoop selfE dir rec False newName entries (i + 1) ?v1))
            (returning (renameLoop selfD dir rec True newName entries (i + 1) ?v1'))"
      proof (rule Cons.IH[OF tdist tents _ _ ex1])
        show "cwd ?v1' = cwd ?v1" using dry1 cw1 cw by simp
        show "walk (fs ?v1') (resolve ?v1 dir) = Inr (Dir es0)" using rv dry1 dry0 by simp
        show "\<forall>x. (\<exists>n. map_of es1 x = Some n \<and> isDirNode n) =
                    (\<exists>n. map_of es0 x = Some n \<and> isDirNode n)"
          using d1 dirs by simp
        show "\<forall>e \<in> set entries. IsDir e \<longrightarrow> map_of es1 (Name e) = map_of es0 (Name e)"
        proof (intro ballI impI)
          fix e' assume e': "e' \<in> set entries" "IsDir e'"
          with tents obtain n where n: "map_of es0 (Name e') = Some n" "isDirNode n" by auto
          with tpend e' have "map_of es (Name e') = Some n" by simp
          with k1 n show "map_of es1 (Name e') = map_of es0 (Name e')" by simp
        qed
      qed
      have "matches ?p w w'
            (returning (renameLoop selfE dir rec False newName entries (i + 1) ?v1))
            (returning (renameLoop selfD dir rec True newName entries (i + 1) ?v1'))"
        by (rule matches_after_step[OF rest[unfolded rv] ex f _ cw1 dry1(2) dry1(1) plans]) simp
      with False Some show ?thesis by simp
    qed
  qed
qed

lemma matches_unchanged: "matches p v v' (Some (r, v)) (Some (r, v'))"
proof (cases "walk (fs v) p")
  case (Inl e)
  show ?thesis
    by (rule matches_SomeI[where X = "[]" and nn = "Dir []"])
      (simp_all add: modify_missing[OF Inl] Inl)
next
  case (Inr n)
  show ?thesis
    by (rule matches_SomeI[where X = "[]" and nn = n]) (simp_all add: modify_id[OF Inr] Inr)
qed

lemma listing_distinct: "distinct (map Name (listing es))"
  by (simp add: listing_def comp_def)

lemma engineStep_exec_dry:
  assumes IH: "execMatchesDry selfE selfD"
    and names: "\<And>i x n. plainName x \<Longrightarrow> newName i x = Some n \<Longrightarrow> plainName n"
  shows "execMatchesDry (engineStep selfE rec False newName) (engineStep selfD rec True newName)"
  unfolding execMatchesDry_def
proof (intro allI impI, elim conjE)
  fix d v v'
  assume cw: "cwd v = cwd v'"
    and same: "walk (fs v) (resolve v d) = walk (fs v') (resolve v' d)"
    and valid: "\<forall>n. walk (fs v') (resolve v' d) = Inr n \<longrightarrow> validNode n"
  let ?p = "resolve v d"
  have rp: "resolve v' d = ?p" using resolve_cwd[OF cw] by simp
  show "matches ?p v v' (engineStep selfE rec False newName d v)
          (engineStep selfD rec True newName d v')"
  proof (cases "d = []")
    case True
    then show ?thesis by (simp add: engineStep_def Stat_def matches_unchanged)
  next
    case False
    show ?thesis
    proof (cases "walk (fs v) ?p")
      case (Inl e)
      with same rp have "walk (fs v) ?p = Inl e" "walk (fs v') ?p = Inl e" by simp_all
      with rp False show ?thesis
        by (simp add: engineStep_def Stat_def matches_unchanged)
    next
      case (Inr n)
      show ?thesis
      proof (cases n)
        case (File c m)
        with Inr same rp have "walk (fs v) ?p = Inr (File c m)" "walk (fs v') ?p = Inr (File c m)"
          by simp_all
        with rp False show ?thesis
          by (simp add: engineStep_def Stat_def matches_unchanged)
      next
        case (Dir es)
        with Inr same rp have w: "walk (fs v) ?p = Inr (Dir es)" "walk (fs v') ?p = Inr (Dir es)"
          by simp_all
        with valid rp have v: "validNode (Dir es)" by simp
        have l: "matches ?p v v'
            (returning (renameLoop selfE d rec False newName (listing es) 0 v))
            (returning (renameLoop selfD d rec True newName (listing es) 0 v'))"
        proof (rule renameLoop_exec_dry[OF IH names False v listing_distinct _ _ w(2) w(1)])
          show "\<forall>e \<in> set (listing es). \<exists>n. map_of es (Name e) = Some n \<and> IsDir e = isDirNode n"
          proof
            fix e assume "e \<in> set (listing es)"
            then have "DirEntry (Name e) (IsDir e) \<in> set (listing es)" by simp
            then show "\<exists>n. map_of es (Name e) = Some n \<and> IsDir e = isDirNode n"
              unfolding in_listing .
          qed
          show "cwd v' = cwd v" using cw by simp
        qed simp_all
        from w rp False l show ?thesis
          by (simp add: engineStep_def Stat_def ReadDir_def)
      qed
    qed
  qed
qed

section \<open>The names that the rules give are single path elements\<close>

lemma toLowerChar_range:
  "toLowerChar c = c \<or> (97 \<le> (of_char (toLowerChar c) :: nat) \<and> (of_char (toLowerChar c) :: nat) \<le> 122)"
  by (simp add: toLowerChar_def)

lemma toLowerChar_slash: "toLowerChar c = CHR ''/'' \<Longrightarrow> c = CHR ''/''"
  using toLowerChar_range[of c] by auto

lemma toLowerChar_dot: "toLowerChar c = CHR ''.'' \<Longrightarrow> c = CHR ''.''"
  using toLowerChar_range[of c] by auto

lemma toLowerChar_idem [simp]: "toLowerChar (toLowerChar c) = toLowerChar c"
  by (simp add: toLowerChar_def)

lemma ToLower_idem [simp]: "ToLower (ToLower s) = ToLower s"
  by (simp add: ToLower_def)

lemma ToLower_slash: "CHR ''/'' \<in> set (ToLower x) \<Longrightarrow> CHR ''/'' \<in> set x"
proof -
  assume "CHR ''/'' \<in> set (ToLower x)"
  then obtain c where "c \<in> set x" "toLowerChar c = CHR ''/''" by (auto simp: ToLower_def)
  then show ?thesis using toLowerChar_slash by blast
qed

lemma ToLower_dot: "ToLower x = ''.'' \<Longrightarrow> x = ''.''"
  by (cases x) (auto simp: ToLower_def dest: toLowerChar_dot)

lemma ToLower_dotdot: "ToLower x = ''..'' \<Longrightarrow> x = ''..''"
proof -
  assume a: "ToLower x = ''..''"
  then obtain c d where x: "x = [c, d]" by (auto simp: ToLower_def)
  with a have "toLowerChar c = CHR ''.''" "toLowerChar d = CHR ''.''" by (simp_all add: ToLower_def)
  with x show ?thesis using toLowerChar_dot by simp
qed

lemma plainName_ToLower: "plainName x \<Longrightarrow> plainName (ToLower x)"
  unfolding plainName_def using ToLower_slash ToLower_dot ToLower_dotdot
  by (metis ToLower_def map_is_Nil_conv)

lemma decimal_noslash: "CHR ''/'' \<notin> set (decimal n)"
proof (induction n rule: decimal.induct)
  case (1 n)
  have d: "char_of (48 + k) \<noteq> CHR ''/''" if "k < 10" for k :: nat
  proof
    assume "char_of (48 + k) = CHR ''/''"
    then have "(of_char (char_of (48 + k)) :: nat) = of_char (CHR ''/'')" by simp
    with that show False by simp
  qed
  show ?case
  proof (cases "n < 10")
    case True
    with d[of n] show ?thesis by (subst decimal.simps) simp
  next
    case False
    with 1 d[of "n mod 10"] show ?thesis by (subst decimal.simps) simp
  qed
qed

lemma Ext_noslash: "CHR ''/'' \<notin> set (Ext x)"
proof -
  have "last (splitSlash x) \<in> set (splitSlash x)" by simp
  then have "CHR ''/'' \<notin> set (last (splitSlash x))" by (rule splitSlash_elems)
  then show ?thesis by (auto simp: Ext_def Let_def dest: set_takeWhileD)
qed

lemma plainName_sequence: "sequenceName i x = Some n \<Longrightarrow> plainName n"
  using decimal_noslash Ext_noslash
  by (auto simp: sequenceName_def plainName_def fmt03d_def Let_def)

lemma plainName_lowercase: "plainName x \<Longrightarrow> lowercaseName i x = Some n \<Longrightarrow> plainName n"
  by (auto simp: lowercaseName_def plainName_ToLower split: if_splits)

end
